theory Spec2Isabelle
  imports Main
begin

section \<open>Text and the fixed marker patterns of \<open>qe_runner.py\<close>\<close>

text \<open>
  Text is a \<open>string\<close>: a list of 8-bit characters, so the model covers text whose code
  points are below 256. All patterns of the program are ASCII.

  Every entry of \<open>ERROR_PATTERNS\<close> and \<open>SUCCESS_PATTERNS\<close> is a regular expression
  without operators: letters, spaces, an underscore, a colon, and in \<open>JOB DONE\.\<close> an
  escaped dot, which stands for the dot itself. \<open>re.search\<close> of such a pattern is the
  search for the literal text, which is what \<open>re_search\<close> computes; the patterns are
  listed as the literal text they match.
\<close>

fun startswith :: "string \<Rightarrow> string \<Rightarrow> bool" where
  "startswith text [] = True"
| "startswith [] (p # ps) = False"
| "startswith (c # cs) (p # ps) = (c = p \<and> startswith cs ps)"

fun re_search :: "string \<Rightarrow> string \<Rightarrow> bool" where
  "re_search pat [] = (pat = [])"
| "re_search pat (c # cs) = (startswith (c # cs) pat \<or> re_search pat cs)"

definition ERROR_PATTERNS :: "string list" where
  "ERROR_PATTERNS =
     [''Error in routine'',
      ''MPI_ABORT'',
      ''forrtl: severe'',
      ''Maximum CPU time exceeded'',
      ''cannot open file'',
      ''ERROR'']"

definition SUCCESS_PATTERNS :: "string list" where
  "SUCCESS_PATTERNS =
     [''convergence has been achieved'',
      ''JOB DONE.'']"

text \<open>What it means for a text to contain a marker, in the words of the specification.\<close>

definition contains_marker :: "string \<Rightarrow> string \<Rightarrow> bool" where
  "contains_marker text pat = (\<exists>pre suf. text = pre @ pat @ suf)"

section \<open>The file system\<close>

text \<open>
  A file system without symbolic links and without permissions. A node is found under its
  canonical absolute name, the list of component names from the root; the root itself is
  always a directory. A file holds text; \<open>Binary s\<close> is a file whose bytes are not valid in
  the default encoding, \<open>s\<close> being the text left when the offending bytes are dropped
  (what \<open>read_text(errors="ignore")\<close> returns).
\<close>

datatype content = Text string | Binary string

datatype node = Dir | File content

type_synonym key = "string list"

type_synonym filesystem = "key \<Rightarrow> node option"

definition node_at :: "filesystem \<Rightarrow> key \<Rightarrow> node option" where
  "node_at f k = (if k = [] then Some Dir else f k)"

datatype oserror = FileNotFoundError | NotADirectoryError | FileExistsError | IsADirectoryError

datatype exn = OSError oserror | UnicodeDecodeError

datatype 'a result = Return 'a | Raise exn | Hang

text \<open>
  \<open>pathlib.Path\<close> on POSIX: whether the path is absolute, and its components. Building a
  path from a string drops empty components and \<open>.\<close> components and keeps \<open>..\<close>.
  (pathlib keeps a root of exactly two separators apart from the root of one; the
  operating system resolves both alike, and the model has the one root.)
\<close>

datatype path = Path (is_absolute: bool) (parts: "string list")

fun split_sep :: "string \<Rightarrow> string list" where
  "split_sep [] = [[]]"
| "split_sep (c # cs) =
     (if c = CHR ''/'' then [] # split_sep cs
      else (case split_sep cs of [] \<Rightarrow> [[c]] | p # ps \<Rightarrow> (c # p) # ps))"

definition Path_of :: "string \<Rightarrow> path" where
  "Path_of s =
     Path (startswith s ''/'') (filter (\<lambda>p. p \<noteq> [] \<and> p \<noteq> ''.'') (split_sep s))"

definition joinpath :: "path \<Rightarrow> path \<Rightarrow> path" where
  "joinpath a b = (if is_absolute b then b else Path (is_absolute a) (parts a @ parts b))"

definition parent :: "path \<Rightarrow> path" where
  "parent p = Path (is_absolute p) (butlast (parts p))"

definition name_of :: "path \<Rightarrow> string" where
  "name_of p = (if parts p = [] then [] else last (parts p))"

fun rfind_dot :: "string \<Rightarrow> nat option" where
  "rfind_dot [] = None"
| "rfind_dot (c # cs) =
     (case rfind_dot cs of
        Some i \<Rightarrow> Some (Suc i)
      | None \<Rightarrow> if c = CHR ''.'' then Some 0 else None)"

definition stem :: "path \<Rightarrow> string" where
  "stem p =
     (let name = name_of p in
      case rfind_dot name of
        None \<Rightarrow> name
      | Some i \<Rightarrow> if 0 < i \<and> i < length name - 1 then take i name else name)"

fun intercalate :: "string \<Rightarrow> string list \<Rightarrow> string" where
  "intercalate sep [] = []"
| "intercalate sep [x] = x"
| "intercalate sep (x # y # ys) = x @ sep @ intercalate sep (y # ys)"

definition str_of_path :: "path \<Rightarrow> string" where
  "str_of_path p =
     (if is_absolute p then ''/'' @ intercalate ''/'' (parts p)
      else if parts p = [] then ''.''
      else intercalate ''/'' (parts p))"

text \<open>
  Name resolution of the operating system: every component is looked up in a directory,
  so the node reached so far has to be a directory before the next component is taken.
  \<open>..\<close> goes to the parent (the root is its own parent), \<open>.\<close> stays.
\<close>

definition step :: "key \<Rightarrow> string \<Rightarrow> key" where
  "step cur c = (if c = ''..'' then butlast cur else if c = ''.'' then cur else cur @ [c])"

fun walk :: "filesystem \<Rightarrow> key \<Rightarrow> string list \<Rightarrow> oserror + key" where
  "walk f cur [] = Inr cur"
| "walk f cur (c # cs) =
     (case node_at f cur of
        None \<Rightarrow> Inl FileNotFoundError
      | Some (File x) \<Rightarrow> Inl NotADirectoryError
      | Some Dir \<Rightarrow> walk f (step cur c) cs)"

definition start_of :: "key \<Rightarrow> path \<Rightarrow> key" where
  "start_of wd p = (if is_absolute p then [] else wd)"

definition locate :: "filesystem \<Rightarrow> key \<Rightarrow> path \<Rightarrow> oserror + key" where
  "locate f wd p = walk f (start_of wd p) (parts p)"

definition path_exists :: "filesystem \<Rightarrow> key \<Rightarrow> path \<Rightarrow> bool" where
  "path_exists f wd p =
     (case locate f wd p of Inl e \<Rightarrow> False | Inr k \<Rightarrow> node_at f k \<noteq> None)"

definition is_dir :: "filesystem \<Rightarrow> key \<Rightarrow> path \<Rightarrow> bool" where
  "is_dir f wd p =
     (case locate f wd p of Inl e \<Rightarrow> False | Inr k \<Rightarrow> node_at f k = Some Dir)"

text \<open>
  \<open>os.path.exists\<close> takes a string. The operating system resolves the raw components,
  where a trailing separator asks for a directory, as a final \<open>.\<close> does.
\<close>

definition os_parts :: "string \<Rightarrow> string list" where
  "os_parts s =
     filter (\<lambda>p. p \<noteq> []) (split_sep s) @ (if s \<noteq> [] \<and> last s = CHR ''/'' then [''.''] else [])"

definition os_path_exists :: "filesystem \<Rightarrow> key \<Rightarrow> string \<Rightarrow> bool" where
  "os_path_exists f wd s =
     (if s = [] then False
      else case walk f (if startswith s ''/'' then [] else wd) (os_parts s) of
             Inl e \<Rightarrow> False
           | Inr k \<Rightarrow> node_at f k \<noteq> None)"

text \<open>\<open>os.mkdir\<close>: the parent has to be a directory and the name has to be free.\<close>

definition os_mkdir :: "filesystem \<Rightarrow> key \<Rightarrow> path \<Rightarrow> oserror + filesystem" where
  "os_mkdir f wd p =
     (if parts p = [] then Inl FileExistsError
      else case locate f wd p of
             Inl e \<Rightarrow> Inl e
           | Inr k \<Rightarrow> if node_at f k \<noteq> None then Inl FileExistsError else Inr (f(k \<mapsto> Dir)))"

text \<open>
  \<open>Path.mkdir(parents=False, exist_ok=True)\<close> and \<open>Path.mkdir(parents=True, exist_ok=True)\<close>
  of pathlib: a missing parent is created first and the call repeated without
  \<open>parents\<close>; any other error of \<open>os.mkdir\<close> is forgiven when the path is a directory.
\<close>

definition mkdir_exist_ok :: "filesystem \<Rightarrow> key \<Rightarrow> path \<Rightarrow> oserror + filesystem" where
  "mkdir_exist_ok f wd p =
     (case os_mkdir f wd p of
        Inr f' \<Rightarrow> Inr f'
      | Inl FileNotFoundError \<Rightarrow> Inl FileNotFoundError
      | Inl e \<Rightarrow> if is_dir f wd p then Inr f else Inl e)"

function mkdir_parents :: "filesystem \<Rightarrow> key \<Rightarrow> path \<Rightarrow> oserror + filesystem" where
  "mkdir_parents f wd p =
     (case os_mkdir f wd p of
        Inr f' \<Rightarrow> Inr f'
      | Inl FileNotFoundError \<Rightarrow>
          if parent p = p then Inl FileNotFoundError
          else (case mkdir_parents f wd (parent p) of
                  Inl e \<Rightarrow> Inl e
                | Inr f1 \<Rightarrow> mkdir_exist_ok f1 wd p)
      | Inl e \<Rightarrow> if is_dir f wd p then Inr f else Inl e)"
  by pat_completeness auto
termination
proof (relation "measure (\<lambda>(f, wd, p). length (parts p))")
  show "wf (measure (\<lambda>(f, wd, p). length (parts p)))"
    by simp
next
  fix f :: filesystem and wd :: key and p :: path
  assume "parent p \<noteq> p"
  then have "parts p \<noteq> []"
    by (cases p) (auto simp: parent_def)
  then show "((f, wd, parent p), (f, wd, p)) \<in> measure (\<lambda>(f, wd, p). length (parts p))"
    by (simp add: parent_def)
qed

declare mkdir_parents.simps [simp del]

text \<open>
  \<open>Path.read_text()\<close> and \<open>Path.read_text(errors="ignore")\<close>. The first raises
  \<open>UnicodeDecodeError\<close>, which is not an \<open>OSError\<close>, on a file that does not decode.
\<close>

definition read_node :: "filesystem \<Rightarrow> key \<Rightarrow> path \<Rightarrow> oserror + content" where
  "read_node f wd p =
     (case locate f wd p of
        Inl e \<Rightarrow> Inl e
      | Inr k \<Rightarrow> (case node_at f k of
                   None \<Rightarrow> Inl FileNotFoundError
                 | Some Dir \<Rightarrow> Inl IsADirectoryError
                 | Some (File x) \<Rightarrow> Inr x))"

definition read_text :: "filesystem \<Rightarrow> key \<Rightarrow> path \<Rightarrow> exn + string" where
  "read_text f wd p =
     (case read_node f wd p of
        Inl e \<Rightarrow> Inl (OSError e)
      | Inr (Text s) \<Rightarrow> Inr s
      | Inr (Binary s) \<Rightarrow> Inl UnicodeDecodeError)"

definition read_text_ignore :: "filesystem \<Rightarrow> key \<Rightarrow> path \<Rightarrow> oserror + string" where
  "read_text_ignore f wd p =
     (case read_node f wd p of
        Inl e \<Rightarrow> Inl e
      | Inr (Text s) \<Rightarrow> Inr s
      | Inr (Binary s) \<Rightarrow> Inr s)"

text \<open>\<open>open(path, "w")\<close>: creates the file or truncates it; a directory cannot be opened.\<close>

definition open_w :: "filesystem \<Rightarrow> key \<Rightarrow> path \<Rightarrow> oserror + filesystem" where
  "open_w f wd p =
     (case locate f wd p of
        Inl e \<Rightarrow> Inl e
      | Inr k \<Rightarrow> if node_at f k = Some Dir then Inl IsADirectoryError
                else Inr (f(k \<mapsto> File (Text []))))"

text \<open>
  \<open>Path.resolve()\<close>: without symbolic links the result is the absolute path with \<open>..\<close>
  removed by name, whether or not the path exists.
\<close>

definition resolve :: "key \<Rightarrow> path \<Rightarrow> path" where
  "resolve wd p = Path True (foldl step (start_of wd p) (parts p))"

section \<open>The world the program runs in\<close>

text \<open>
  Every call of the program into the operating system and every log line is recorded in
  a trace, in order. \<open>which\<close> is \<open>shutil.which\<close>, the search-path lookup of the platform.
\<close>

datatype level = INFO | WARNING | ERROR

datatype message =
    PseudoDirNotFound path
  | Running "string list"
  | TimedOutAfter int
  | Finished int
  | InputNotFound path
  | PwNotFound
  | OutputIndicatesError path
  | NoSuccessMarker path

datatype event =
    ReadText path
  | Mkdir path
  | Exists path
  | OsPathExists string
  | Which string
  | OpenW path
  | Popen "string list" path
  | Wait "int option"
  | Terminate
  | Kill
  | Log level message

record world =
  fs :: filesystem
  cwd :: key
  which :: "string \<Rightarrow> string option"
  trace :: "event list"

definition emit :: "event \<Rightarrow> world \<Rightarrow> world" where
  "emit e w = w\<lparr>trace := trace w @ [e]\<rparr>"

section \<open>The executable resolver\<close>

definition isabs :: "string \<Rightarrow> bool" where
  "isabs s = startswith s ''/''"

definition find_pw_executable :: "string \<Rightarrow> world \<Rightarrow> string option \<times> world" where
  "find_pw_executable pw_cmd w =
     (if isabs pw_cmd \<or> CHR ''/'' \<in> set pw_cmd then
        (let w0 = emit (OsPathExists pw_cmd) w
         in (if os_path_exists (fs w0) (cwd w0) pw_cmd then Some pw_cmd else None, w0))
      else (which w pw_cmd, emit (Which pw_cmd) w))"

section \<open>The directory-declaration extractor\<close>

text \<open>
  The pattern is \<open>key\s*=\s*['"]?([^,'"\s]+)\<close> with \<open>re.IGNORECASE\<close>, and the key is
  pasted into it as it is: the model reads the key as literal text, which is what the
  pattern means for a key of letters, digits and underscores (\<open>plain_key\<close>), as both keys
  of the program are. On text below code point 256 a letter of such a key matches its two
  ASCII spellings and nothing else, and \<open>\s\<close> matches the twelve characters of
  \<open>is_space\<close>.

  \<open>match_at\<close> is the match anchored at the start of the text. The greedy choices are the
  only ones that can succeed: \<open>=\<close> is no white space, so the first \<open>\s*\<close> has to take all
  of it; a value character is neither white space nor a quote, so the second \<open>\s*\<close> and
  the optional quote have to take what they can; the group takes the longest run.
  \<open>re.search\<close> returns the match at the leftmost position that has one.
\<close>

definition is_space :: "char \<Rightarrow> bool" where
  "is_space c =
     (c \<in> set [CHR 0x09, CHR 0x0A, CHR 0x0B, CHR 0x0C, CHR 0x0D, CHR 0x1C, CHR 0x1D,
               CHR 0x1E, CHR 0x1F, CHR 0x20, CHR 0x85, CHR 0xA0])"

definition is_quote :: "char \<Rightarrow> bool" where
  "is_quote c = (c = CHR 0x27 \<or> c = CHR 0x22)"

definition is_value_char :: "char \<Rightarrow> bool" where
  "is_value_char c = (c \<noteq> CHR '','' \<and> \<not> is_quote c \<and> \<not> is_space c)"

definition upper_letters :: string where
  "upper_letters = ''ABCDEFGHIJKLMNOPQRSTUVWXYZ''"

definition lower_letters :: string where
  "lower_letters = ''abcdefghijklmnopqrstuvwxyz''"

definition lower :: "char \<Rightarrow> char" where
  "lower c = (case map_of (zip upper_letters lower_letters) c of None \<Rightarrow> c | Some l \<Rightarrow> l)"

definition plain_key :: "string \<Rightarrow> bool" where
  "plain_key key = list_all (\<lambda>c. c \<in> set (upper_letters @ lower_letters @ ''0123456789_'')) key"

fun match_key :: "string \<Rightarrow> string \<Rightarrow> string option" where
  "match_key [] text = Some text"
| "match_key (k # ks) [] = None"
| "match_key (k # ks) (c # cs) = (if lower c = lower k then match_key ks cs else None)"

definition strip_quote :: "string \<Rightarrow> string" where
  "strip_quote r = (case r of [] \<Rightarrow> r | q # r' \<Rightarrow> if is_quote q then r' else r)"

definition match_decl :: "string \<Rightarrow> string option" where
  "match_decl rest =
     (case dropWhile is_space rest of
        [] \<Rightarrow> None
      | c # r2 \<Rightarrow>
          if c = CHR ''='' then
            (let v = takeWhile is_value_char (strip_quote (dropWhile is_space r2))
             in if v = [] then None else Some v)
          else None)"

definition match_at :: "string \<Rightarrow> string \<Rightarrow> string option" where
  "match_at key text =
     (case match_key key text of None \<Rightarrow> None | Some rest \<Rightarrow> match_decl rest)"

fun parse_namelist_value :: "string \<Rightarrow> string \<Rightarrow> string option" where
  "parse_namelist_value [] key = match_at key []"
| "parse_namelist_value (c # cs) key =
     (case match_at key (c # cs) of
        Some v \<Rightarrow> Some v
      | None \<Rightarrow> parse_namelist_value cs key)"

section \<open>The run directory manager\<close>

definition ensure_output_dirs :: "path \<Rightarrow> world \<Rightarrow> exn option \<times> world" where
  "ensure_output_dirs input_path w =
     (let w0 = emit (ReadText input_path) w in
      case read_text (fs w0) (cwd w0) input_path of
        Inl (OSError e) \<Rightarrow> (None, w0)
      | Inl UnicodeDecodeError \<Rightarrow> (Some UnicodeDecodeError, w0)
      | Inr content \<Rightarrow>
          (case (case parse_namelist_value content ''outdir'' of
                   None \<Rightarrow> Inr w0
                 | Some outdir \<Rightarrow>
                     if outdir = [] then Inr w0
                     else
                       (let out_path0 = Path_of outdir;
                            out_path = (if \<not> is_absolute out_path0
                                        then joinpath (parent input_path) out_path0
                                        else out_path0);
                            w1 = emit (Mkdir out_path) w0
                        in case mkdir_parents (fs w1) (cwd w1) out_path of
                             Inl e \<Rightarrow> Inl (e, w1)
                           | Inr f' \<Rightarrow> Inr (w1\<lparr>fs := f'\<rparr>)))
           of
             Inl (e, w1) \<Rightarrow> (Some (OSError e), w1)
           | Inr w1 \<Rightarrow>
               (case parse_namelist_value content ''pseudo_dir'' of
                  None \<Rightarrow> (None, w1)
                | Some pseudo_dir \<Rightarrow>
                    if pseudo_dir = [] then (None, w1)
                    else
                      (let pseudo_path0 = Path_of pseudo_dir;
                           pseudo_path = (if \<not> is_absolute pseudo_path0
                                          then joinpath (parent input_path) pseudo_path0
                                          else pseudo_path0);
                           w2 = emit (Exists pseudo_path) w1
                       in if \<not> path_exists (fs w2) (cwd w2) pseudo_path
                          then (None, emit (Log WARNING (PseudoDirNotFound pseudo_path)) w2)
                          else (None, w2)))))"

section \<open>The outcome classifier\<close>

definition detect_qe_errors :: "path \<Rightarrow> world \<Rightarrow> (bool \<times> bool) \<times> world" where
  "detect_qe_errors output_path w =
     (let w0 = emit (ReadText output_path) w in
      case read_text_ignore (fs w0) (cwd w0) output_path of
        Inl e \<Rightarrow> ((False, False), w0)
      | Inr content \<Rightarrow>
          (let has_error = list_ex (\<lambda>pat. re_search pat content) ERROR_PATTERNS;
               has_success = list_ex (\<lambda>pat. re_search pat content) SUCCESS_PATTERNS
           in ((has_error, has_success), w0)))"

section \<open>The process supervisor\<close>

text \<open>
  The solver is outside the program. What the supervisor can observe of it is whether the
  process could be started, the outcome of the wait bounded by the configured timeout,
  the outcome of the ten-second wait after the termination signal, and what the process
  has done to the file system by the time the supervisor returns (its output goes to the
  two sink files). A wait without a timeout on a process that never exits does not return.
\<close>

datatype wait_result = Exited int | StillRunning

record solver =
  spawn_error :: "oserror option"
  first_wait :: wait_result
  grace_wait :: wait_result
  effect :: "filesystem \<Rightarrow> filesystem"

definition run_pw ::
  "path \<Rightarrow> string \<Rightarrow> path \<Rightarrow> path \<Rightarrow> path \<Rightarrow> int option \<Rightarrow> string list option \<Rightarrow> solver
     \<Rightarrow> world \<Rightarrow> int result \<times> world" where
  "run_pw input_file pw_exec output_path error_path workdir timeout mpi_cmd sv w =
     (let cmd = (case mpi_cmd of None \<Rightarrow> [] | Some m \<Rightarrow> m) @ [pw_exec, ''-in'', str_of_path input_file];
          w0 = emit (OpenW output_path) (emit (Log INFO (Running cmd)) w)
      in case open_w (fs w0) (cwd w0) output_path of
           Inl e \<Rightarrow> (Raise (OSError e), w0)
         | Inr f1 \<Rightarrow>
             (let w1 = emit (OpenW error_path) (w0\<lparr>fs := f1\<rparr>)
              in case open_w (fs w1) (cwd w1) error_path of
                   Inl e \<Rightarrow> (Raise (OSError e), w1)
                 | Inr f2 \<Rightarrow>
                     (let w2 = emit (Popen cmd workdir) (w1\<lparr>fs := f2\<rparr>)
                      in case spawn_error sv of
                           Some e \<Rightarrow> (Raise (OSError e), w2)
                         | None \<Rightarrow>
                             (let w3 = emit (Wait timeout) (w2\<lparr>fs := effect sv (fs w2)\<rparr>)
                              in case first_wait sv of
                                   Exited rc \<Rightarrow> (Return rc, emit (Log INFO (Finished rc)) w3)
                                 | StillRunning \<Rightarrow>
                                     (case timeout of
                                        None \<Rightarrow> (Hang, w3)
                                      | Some t \<Rightarrow>
                                          (let w4 = emit (Wait (Some 10)) (emit Terminate w3);
                                               w5 = (case grace_wait sv of
                                                       Exited rc \<Rightarrow> w4
                                                     | StillRunning \<Rightarrow> emit Kill w4)
                                           in (Return 124, emit (Log ERROR (TimedOutAfter t)) w5)))))))"

section \<open>The command-line program\<close>

record args =
  input :: string
  pw :: string
  mpi :: "string list option"
  timeout :: "int option"
  run_dir :: string
  out :: "string option"
  no_timestamp :: bool

text \<open>
  \<open>main\<close> up to the call of \<open>run_pw\<close>: either the program is over (\<open>Inl\<close>), or the input
  path, the resolved executable and the two sink paths are known. \<open>timestamp\<close> is the
  value of \<open>time.strftime\<close>.
\<close>

definition main_setup ::
  "args \<Rightarrow> string \<Rightarrow> world \<Rightarrow> (int result \<times> world) + ((path \<times> string \<times> path \<times> path) \<times> world)" where
  "main_setup a timestamp w =
     (let input_path = resolve (cwd w) (Path_of (input a));
          w0 = emit (Exists input_path) w
      in if \<not> path_exists (fs w0) (cwd w0) input_path
         then Inl (Return 1, emit (Log ERROR (InputNotFound input_path)) w0)
         else
           (case find_pw_executable (pw a) w0 of
              (None, w1) \<Rightarrow> Inl (Return 1, emit (Log ERROR PwNotFound) w1)
            | (Some pw_exec, w1) \<Rightarrow>
                if pw_exec = [] then Inl (Return 1, emit (Log ERROR PwNotFound) w1)
                else
                  (case ensure_output_dirs input_path w1 of
                     (Some e, w2) \<Rightarrow> Inl (Raise e, w2)
                   | (None, w2) \<Rightarrow>
                       (let rdir = (if no_timestamp a then Path_of (run_dir a)
                                    else joinpath (Path_of (run_dir a))
                                           (Path_of (stem input_path @ ''_'' @ timestamp)));
                            w3 = emit (Mkdir rdir) w2
                        in case mkdir_parents (fs w3) (cwd w3) rdir of
                             Inl e \<Rightarrow> Inl (Raise (OSError e), w3)
                           | Inr f' \<Rightarrow>
                               (let output_name = (case out a of
                                                     None \<Rightarrow> stem input_path @ ''.out''
                                                   | Some n \<Rightarrow> if n = [] then stem input_path @ ''.out'' else n);
                                    output_path = joinpath rdir (Path_of output_name);
                                    error_path = joinpath rdir (Path_of (stem input_path @ ''.err''))
                                in Inr ((input_path, pw_exec, output_path, error_path),
                                        w3\<lparr>fs := f'\<rparr>))))))"

definition main :: "args \<Rightarrow> string \<Rightarrow> solver \<Rightarrow> world \<Rightarrow> int result \<times> world" where
  "main a timestamp sv w =
     (case main_setup a timestamp w of
        Inl r \<Rightarrow> r
      | Inr ((input_path, pw_exec, output_path, error_path), w1) \<Rightarrow>
          (case run_pw input_path pw_exec output_path error_path (parent input_path)
                  (timeout a) (mpi a) sv w1 of
             (Raise e, w2) \<Rightarrow> (Raise e, w2)
           | (Hang, w2) \<Rightarrow> (Hang, w2)
           | (Return exit_code, w2) \<Rightarrow>
               (case detect_qe_errors output_path w2 of
                  ((has_error, has_success), w3) \<Rightarrow>
                    if has_error
                    then (Return 2, emit (Log ERROR (OutputIndicatesError output_path)) w3)
                    else if \<not> has_success
                    then (Return exit_code, emit (Log WARNING (NoSuccessMarker output_path)) w3)
                    else (Return exit_code, w3))))"

section \<open>Concrete inputs and notions for the statements\<close>

text \<open>
  A small world: a deck \<open>/w/si.in\<close> that declares both directories, a solver binary
  \<open>/bin/pw.x\<close>, and three captured outputs of earlier runs.
\<close>

definition demo_deck :: string where
  "demo_deck =
     ''&control outdir = '' @ [CHR 0x27] @ ''./out/'' @ [CHR 0x27] @
     '', pseudo_dir = ./pseudo /''"

definition demo_fs :: filesystem where
  "demo_fs =
     [[''w''] \<mapsto> Dir,
      [''w'', ''si.in''] \<mapsto> File (Text demo_deck),
      [''bin''] \<mapsto> Dir,
      [''bin'', ''pw.x''] \<mapsto> File (Binary []),
      [''w'', ''ok.out''] \<mapsto> File (Text ''convergence has been achieved''),
      [''w'', ''bad.out''] \<mapsto> File (Text ''Error in routine  JOB DONE.''),
      [''w'', ''empty.out''] \<mapsto> File (Text [])]"

definition demo_world :: world where
  "demo_world =
     \<lparr>fs = demo_fs, cwd = [''w''],
      which = (\<lambda>s. if s = ''pw.x'' then Some ''/bin/pw.x'' else None),
      trace = []\<rparr>"

text \<open>
  A run of \<open>/bin/pw.x\<close> on the deck with a timeout of five seconds, and a solver that
  neither finishes in time nor reacts to the termination signal, having written an error
  marker and a success banner.
\<close>

definition demo_args :: args where
  "demo_args =
     \<lparr>input = ''si.in'', pw = ''/bin/pw.x'', mpi = None, timeout = Some 5,
      run_dir = ''qe_runs'', out = None, no_timestamp = False\<rparr>"

definition demo_timestamp :: string where
  "demo_timestamp = ''20240101_120000''"

definition stuck_solver :: solver where
  "stuck_solver =
     \<lparr>spawn_error = None, first_wait = StillRunning, grace_wait = StillRunning,
      effect = (\<lambda>f. f([''w'', ''qe_runs'', ''si_20240101_120000'', ''si.out'']
                         \<mapsto> File (Text ''Error in routine  JOB DONE.'')))\<rparr>"

text \<open>
  Variants of that solver: one that exits on the termination signal, one that writes
  nothing, and one that exits normally with code 0 after writing both markers. Then the
  paths the setup of the program derives for the run, and the world it leaves.
\<close>

definition quick_solver :: solver where
  "quick_solver = stuck_solver\<lparr>grace_wait := Exited (-15)\<rparr>"

definition silent_solver :: solver where
  "silent_solver = stuck_solver\<lparr>effect := (\<lambda>f. f)\<rparr>"

definition contradictory_solver :: solver where
  "contradictory_solver = stuck_solver\<lparr>first_wait := Exited 0\<rparr>"

definition demo_input :: path where
  "demo_input = Path True [''w'', ''si.in'']"

definition demo_output :: path where
  "demo_output = Path False [''qe_runs'', ''si_20240101_120000'', ''si.out'']"

definition demo_errfile :: path where
  "demo_errfile = Path False [''qe_runs'', ''si_20240101_120000'', ''si.err'']"

definition demo_prepared :: world where
  "demo_prepared = snd (projr (main_setup demo_args demo_timestamp demo_world))"

text \<open>
  The extractor in the words of its description: the value that stands at the first
  place where the key occurs in the text, letter case ignored.
\<close>

fun first_occurrence :: "string \<Rightarrow> string \<Rightarrow> string option" where
  "first_occurrence [] key = (if key = [] then Some [] else None)"
| "first_occurrence (c # cs) key =
     (if match_key key (c # cs) \<noteq> None then Some (c # cs) else first_occurrence cs key)"

definition value_of_first_occurrence :: "string \<Rightarrow> string \<Rightarrow> string option" where
  "value_of_first_occurrence s key =
     (case first_occurrence s key of None \<Rightarrow> None | Some suffix \<Rightarrow> match_at key suffix)"

text \<open>
  The pattern read as a description: the text starts with a declaration of the key with
  value \<open>v\<close>, that is a spelling of the key, white space, \<open>=\<close>, white space, at most one
  quote, and the value as the longest run of value characters.
\<close>

definition declares :: "string \<Rightarrow> string \<Rightarrow> string \<Rightarrow> bool" where
  "declares key s v =
     (\<exists>spelling ws1 ws2 q rest.
        s = spelling @ ws1 @ ''='' @ ws2 @ q @ v @ rest
        \<and> map lower spelling = map lower key
        \<and> list_all is_space ws1 \<and> list_all is_space ws2
        \<and> length q \<le> 1 \<and> list_all is_quote q
        \<and> v \<noteq> [] \<and> list_all is_value_char v
        \<and> (case rest of [] \<Rightarrow> True | c # cs \<Rightarrow> \<not> is_value_char c))"

text \<open>A text with three occurrences of the key \<open>outdir\<close>.\<close>

definition cex_deck :: string where
  "cex_deck = ''outdir wfc_outdir=a outdir=b''"







text \<open>The same world with a regular file named \<open>out\<close> beside the deck.\<close>

definition blocked_world :: world where
  "blocked_world = demo_world\<lparr>fs := demo_fs([''w'', ''out''] \<mapsto> File (Text []))\<rparr>"

section \<open>Properties\<close>

subsection \<open>The outcome classifier\<close>

lemma startswith_iff: "startswith s pat \<longleftrightarrow> (\<exists>suf. s = pat @ suf)"
  by (induction s pat rule: startswith.induct) auto

lemma re_search_iff: "re_search pat s \<longleftrightarrow> contains_marker s pat"
proof (induction s)
  case Nil
  show ?case by (auto simp: contains_marker_def)
next
  case (Cons c cs)
  show ?case
  proof
    assume "re_search pat (c # cs)"
    then consider "startswith (c # cs) pat" | "re_search pat cs" by auto
    then show "contains_marker (c # cs) pat"
    proof cases
      case 1
      then obtain suf where "c # cs = pat @ suf" by (auto simp: startswith_iff)
      then have "c # cs = [] @ pat @ suf" by simp
      then show ?thesis unfolding contains_marker_def by blast
    next
      case 2
      then obtain pre suf where "cs = pre @ pat @ suf"
        using Cons.IH by (auto simp: contains_marker_def)
      then have "c # cs = (c # pre) @ pat @ suf" by simp
      then show ?thesis unfolding contains_marker_def by blast
    qed
  next
    assume "contains_marker (c # cs) pat"
    then obtain pre suf where eq: "c # cs = pre @ pat @ suf"
      by (auto simp: contains_marker_def)
    show "re_search pat (c # cs)"
    proof (cases pre)
      case Nil
      with eq have "startswith (c # cs) pat" by (auto simp: startswith_iff)
      then show ?thesis by simp
    next
      case (Cons d ds)
      with eq have "cs = ds @ pat @ suf" by simp
      then have "contains_marker cs pat" unfolding contains_marker_def by blast
      then show ?thesis using Cons.IH by simp
    qed
  qed
qed

lemma list_ex_re_search:
  "list_ex (\<lambda>pat. re_search pat content) pats \<longleftrightarrow> (\<exists>pat \<in> set pats. contains_marker content pat)"
  by (simp add: list_ex_iff re_search_iff)

lemma detect_qe_errors_readable:
  assumes "read_text_ignore (fs w) (cwd w) output_path = Inr content"
  shows "fst (detect_qe_errors output_path w) =
           ((\<exists>pat \<in> set ERROR_PATTERNS. contains_marker content pat),
            (\<exists>pat \<in> set SUCCESS_PATTERNS. contains_marker content pat))"
  using assms by (simp add: detect_qe_errors_def emit_def Let_def list_ex_re_search)

text \<open>
  Claim C4. On a readable output file the classifier returns two independent presence
  tests: \<open>has_error\<close> holds exactly when the text contains one of the error patterns,
  \<open>has_success\<close> exactly when it contains one of the success patterns. So a text with a
  success pattern and no error pattern gives \<open>(False, True)\<close>, and a text with an error
  pattern gives \<open>has_error\<close>, whatever else it contains.
\<close>

theorem detect_qe_errors_presence:
  assumes "read_text_ignore (fs w) (cwd w) output_path = Inr content"
  shows "((\<exists>pat \<in> set SUCCESS_PATTERNS. contains_marker content pat) \<and>
          \<not> (\<exists>pat \<in> set ERROR_PATTERNS. contains_marker content pat)
            \<longrightarrow> fst (detect_qe_errors output_path w) = (False, True))
       \<and> ((\<exists>pat \<in> set ERROR_PATTERNS. contains_marker content pat)
            \<longrightarrow> fst (fst (detect_qe_errors output_path w)))
       \<and> fst (fst (detect_qe_errors output_path w))
            = (\<exists>pat \<in> set ERROR_PATTERNS. contains_marker content pat)
       \<and> snd (fst (detect_qe_errors output_path w))
            = (\<exists>pat \<in> set SUCCESS_PATTERNS. contains_marker content pat)"
  using detect_qe_errors_readable [OF assms] by simp

lemma demo_read_ok:
  "read_text_ignore (fs demo_world) (cwd demo_world) (Path_of ''ok.out'') = Inr ''convergence has been achieved''"
  by code_simp

lemma demo_read_bad:
  "read_text_ignore (fs demo_world) (cwd demo_world) (Path_of ''bad.out'') = Inr ''Error in routine  JOB DONE.''"
  by code_simp

lemma ok_has_success: "\<exists>pat \<in> set SUCCESS_PATTERNS. contains_marker ''convergence has been achieved'' pat"
  unfolding list_ex_re_search [symmetric] by code_simp
lemma ok_no_error: "\<not> (\<exists>pat \<in> set ERROR_PATTERNS. contains_marker ''convergence has been achieved'' pat)"
  unfolding list_ex_re_search [symmetric] by code_simp
lemma bad_has_error: "\<exists>pat \<in> set ERROR_PATTERNS. contains_marker ''Error in routine  JOB DONE.'' pat"
  unfolding list_ex_re_search [symmetric] by code_simp
lemma bad_has_success: "\<exists>pat \<in> set SUCCESS_PATTERNS. contains_marker ''Error in routine  JOB DONE.'' pat"
  unfolding list_ex_re_search [symmetric] by code_simp

theorem detect_qe_errors_presence_witness:
  "fst (detect_qe_errors (Path_of ''ok.out'') demo_world) = (False, True)
   \<and> fst (detect_qe_errors (Path_of ''bad.out'') demo_world) = (True, True)"
proof -
  have a: "fst (detect_qe_errors (Path_of ''ok.out'') demo_world) = (False, True)"
    using detect_qe_errors_presence [OF demo_read_ok] ok_has_success ok_no_error by blast
  have "fst (fst (detect_qe_errors (Path_of ''bad.out'') demo_world))"
    and "snd (fst (detect_qe_errors (Path_of ''bad.out'') demo_world))"
    using detect_qe_errors_presence [OF demo_read_bad] bad_has_error bad_has_success by blast+
  then have b: "fst (detect_qe_errors (Path_of ''bad.out'') demo_world) = (True, True)"
    by (simp add: prod_eq_iff)
  from a b show ?thesis by simp
qed

text \<open>
  Claim C5. When the output file cannot be read (\<open>read_text\<close> raises an \<open>OSError\<close>) or
  is empty, the classifier returns \<open>(False, False)\<close>; it has no failing branch.
\<close>

theorem detect_qe_errors_empty_or_unreadable:
  assumes "read_text_ignore (fs w) (cwd w) output_path = Inl e
           \<or> read_text_ignore (fs w) (cwd w) output_path = Inr []"
  shows "fst (detect_qe_errors output_path w) = (False, False)"
  using assms
  by (auto simp: detect_qe_errors_def emit_def Let_def ERROR_PATTERNS_def SUCCESS_PATTERNS_def)

lemma demo_read_empty:
  "read_text_ignore (fs demo_world) (cwd demo_world) (Path_of ''empty.out'') = Inr []"
  by code_simp
lemma demo_read_missing:
  "read_text_ignore (fs demo_world) (cwd demo_world) (Path_of ''missing.out'') = Inl FileNotFoundError"
  by code_simp

theorem detect_qe_errors_empty_or_unreadable_witness:
  "fst (detect_qe_errors (Path_of ''empty.out'') demo_world) = (False, False)
   \<and> fst (detect_qe_errors (Path_of ''missing.out'') demo_world) = (False, False)"
  using detect_qe_errors_empty_or_unreadable [of demo_world "Path_of ''empty.out''"]
        detect_qe_errors_empty_or_unreadable [of demo_world "Path_of ''missing.out''" FileNotFoundError]
        demo_read_empty demo_read_missing
  by simp

subsection \<open>The executable resolver\<close>

text \<open>
  Claim C6. A specification that is absolute or contains a separator is returned as it is
  exactly when that path exists, and is not found otherwise, whatever the search-path
  lookup would say; any other specification is handed to the search-path lookup.
\<close>

theorem find_pw_executable_resolution:
  "(isabs s \<or> CHR ''/'' \<in> set s \<longrightarrow>
      (fst (find_pw_executable s w) = Some s \<longleftrightarrow> os_path_exists (fs w) (cwd w) s)
      \<and> (\<not> os_path_exists (fs w) (cwd w) s \<longrightarrow> fst (find_pw_executable s w) = None)
      \<and> (\<forall>lookup. fst (find_pw_executable s (w\<lparr>which := lookup\<rparr>)) = fst (find_pw_executable s w))
      \<and> snd (find_pw_executable s w) = emit (OsPathExists s) w)
   \<and> (\<not> (isabs s \<or> CHR ''/'' \<in> set s) \<longrightarrow>
      find_pw_executable s w = (which w s, emit (Which s) w))"
  by (simp add: find_pw_executable_def emit_def Let_def)

lemma demo_exists_pw: "os_path_exists (fs demo_world) (cwd demo_world) ''/bin/pw.x''"
  by code_simp

lemma demo_not_exists: "\<not> os_path_exists (fs demo_world) (cwd demo_world) ''./nowhere/pw.x''"
  by code_simp

theorem find_pw_executable_resolution_witness:
  "fst (find_pw_executable ''/bin/pw.x'' demo_world) = Some ''/bin/pw.x''
   \<and> fst (find_pw_executable ''./nowhere/pw.x'' demo_world) = None
   \<and> fst (find_pw_executable ''pw.x'' demo_world) = Some ''/bin/pw.x''"
proof -
  have a: "isabs ''/bin/pw.x''" and b: "CHR ''/'' \<in> set ''./nowhere/pw.x''"
    and c: "\<not> (isabs ''pw.x'' \<or> CHR ''/'' \<in> set ''pw.x'')"
    by (simp_all add: isabs_def)
  have "fst (find_pw_executable ''/bin/pw.x'' demo_world) = Some ''/bin/pw.x''"
    using find_pw_executable_resolution [of "''/bin/pw.x''" demo_world] a demo_exists_pw by blast
  moreover have "fst (find_pw_executable ''./nowhere/pw.x'' demo_world) = None"
    using find_pw_executable_resolution [of "''./nowhere/pw.x''" demo_world] b demo_not_exists by blast
  moreover have "fst (find_pw_executable ''pw.x'' demo_world) = Some ''/bin/pw.x''"
    using find_pw_executable_resolution [of "''pw.x''" demo_world] c by (simp add: demo_world_def)
  ultimately show ?thesis by simp
qed

subsection \<open>Preconditions of the program\<close>

lemma find_pw_executable_emit:
  "fst (find_pw_executable s (emit e w)) = fst (find_pw_executable s w)"
  by (simp add: find_pw_executable_def emit_def Let_def)

lemma find_pw_executable_trace:
  "\<exists>ev. snd (find_pw_executable s w) = emit ev w \<and> (ev = OsPathExists s \<or> ev = Which s)"
  by (auto simp: find_pw_executable_def Let_def)

text \<open>
  Claim C7. When the executable cannot be resolved the program ends with exit code 1; the
  file system is as it was, and among the events of the run there is neither the opening
  of a sink file nor the start of a process.
\<close>

theorem main_unresolved_executable:
  assumes "fst (find_pw_executable (pw a) w) = None"
  shows "\<exists>evs. main a timestamp sv w = (Return 1, w\<lparr>trace := trace w @ evs\<rparr>)
           \<and> (\<forall>p. OpenW p \<notin> set evs) \<and> (\<forall>c d. Popen c d \<notin> set evs)"
proof -
  define ip where "ip = resolve (cwd w) (Path_of (input a))"
  define w0 where "w0 = emit (Exists ip) w"
  show ?thesis
  proof (cases "path_exists (fs w0) (cwd w0) ip")
    case False
    then have "main a timestamp sv w = (Return 1, w\<lparr>trace := trace w @ [Exists ip, Log ERROR (InputNotFound ip)]\<rparr>)"
      by (simp add: main_def main_setup_def Let_def ip_def w0_def emit_def)
    then show ?thesis by fastforce
  next
    case True
    obtain ev where ev: "snd (find_pw_executable (pw a) w0) = emit ev w0"
      "ev = OsPathExists (pw a) \<or> ev = Which (pw a)"
      using find_pw_executable_trace by blast
    have "fst (find_pw_executable (pw a) w0) = None"
      using assms by (simp add: w0_def find_pw_executable_emit)
    with ev have "find_pw_executable (pw a) w0 = (None, emit ev w0)"
      by (simp add: prod_eq_iff)
    with True have "main a timestamp sv w = (Return 1, w\<lparr>trace := trace w @ [Exists ip, ev, Log ERROR PwNotFound]\<rparr>)"
      by (simp add: main_def main_setup_def Let_def ip_def w0_def emit_def)
    with ev(2) show ?thesis by fastforce
  qed
qed

lemma demo_unresolved: "fst (find_pw_executable ''qe.x'' demo_world) = None"
  by code_simp

theorem main_unresolved_executable_witness:
  "fst (main (demo_args\<lparr>pw := ''qe.x''\<rparr>) demo_timestamp stuck_solver demo_world) = Return 1
   \<and> fs (snd (main (demo_args\<lparr>pw := ''qe.x''\<rparr>) demo_timestamp stuck_solver demo_world)) = fs demo_world"
proof -
  have "fst (find_pw_executable (pw (demo_args\<lparr>pw := ''qe.x''\<rparr>)) demo_world) = None"
    using demo_unresolved by simp
  from main_unresolved_executable [OF this, of demo_timestamp stuck_solver]
  show ?thesis by auto
qed

subsection \<open>The run directory manager on an unreadable deck\<close>




subsection \<open>The process supervisor\<close>

lemma Inr_projr: "\<not> isl x \<Longrightarrow> x = Inr (projr x)"
  by (cases x) simp_all

text \<open>
  Claim C3. When the process has been started and the wait bounded by the configured
  timeout \<open>t\<close> expires, the supervisor sends the termination signal, then waits with a
  timeout of ten seconds, then sends the kill signal exactly when that second wait
  expired too, and returns 124 whatever the process did in the meantime. The events
  appear in the trace in this order, with nothing in between.
\<close>

theorem run_pw_timeout_escalation:
  assumes "open_w (fs w) (cwd w) output_path = Inr f1"
      and "open_w f1 (cwd w) error_path = Inr f2"
      and "spawn_error sv = None"
      and "first_wait sv = StillRunning"
  shows "\<exists>w' cmd. run_pw input_file pw_exec output_path error_path workdir (Some t) mpi_cmd sv w
                     = (Return 124, w')
           \<and> trace w' = trace w
                @ [Log INFO (Running cmd), OpenW output_path, OpenW error_path, Popen cmd workdir]
                @ [Wait (Some t), Terminate, Wait (Some 10)]
                @ (if grace_wait sv = StillRunning then [Kill] else [])
                @ [Log ERROR (TimedOutAfter t)]"
  using assms
  by (cases "grace_wait sv") (simp_all add: run_pw_def emit_def Let_def)

lemma demo_open_out: "\<not> isl (open_w (fs demo_world) (cwd demo_world) (Path_of ''run.out''))"
  by code_simp

lemma demo_open_err:
  "\<not> isl (open_w (projr (open_w (fs demo_world) (cwd demo_world) (Path_of ''run.out'')))
             (cwd demo_world) (Path_of ''run.err''))"
  by code_simp

theorem run_pw_timeout_escalation_witness:
  "fst (run_pw (Path_of ''/w/si.in'') ''/bin/pw.x'' (Path_of ''run.out'') (Path_of ''run.err'')
          (Path_of ''/w'') (Some 5) None stuck_solver demo_world) = Return 124
   \<and> Kill \<in> set (trace (snd (run_pw (Path_of ''/w/si.in'') ''/bin/pw.x'' (Path_of ''run.out'')
          (Path_of ''run.err'') (Path_of ''/w'') (Some 5) None stuck_solver demo_world)))
   \<and> fst (run_pw (Path_of ''/w/si.in'') ''/bin/pw.x'' (Path_of ''run.out'') (Path_of ''run.err'')
          (Path_of ''/w'') (Some 5) None quick_solver demo_world) = Return 124
   \<and> Kill \<notin> set (trace (snd (run_pw (Path_of ''/w/si.in'') ''/bin/pw.x'' (Path_of ''run.out'')
          (Path_of ''run.err'') (Path_of ''/w'') (Some 5) None quick_solver demo_world)))"
proof -
  note o1 = Inr_projr [OF demo_open_out] and o2 = Inr_projr [OF demo_open_err]
  have s: "spawn_error stuck_solver = None" "first_wait stuck_solver = StillRunning"
    "grace_wait stuck_solver = StillRunning"
    and q: "spawn_error quick_solver = None" "first_wait quick_solver = StillRunning"
    "grace_wait quick_solver \<noteq> StillRunning"
    by (simp_all add: stuck_solver_def quick_solver_def)
  have t: "trace demo_world = []"
    by (simp add: demo_world_def)
  from run_pw_timeout_escalation [OF o1 o2 s(1) s(2), of "Path_of ''/w/si.in''" "''/bin/pw.x''" "Path_of ''/w''" 5 None]
    run_pw_timeout_escalation [OF o1 o2 q(1) q(2), of "Path_of ''/w/si.in''" "''/bin/pw.x''" "Path_of ''/w''" 5 None]
  show ?thesis
    using s(3) q(3) t by auto
qed

subsection \<open>The exit code of the program\<close>

text \<open>
  Claim C2. Once the supervisor has returned an exit code and the classifier reports
  \<open>has_error\<close> on the captured output, the exit code of the program is 2, whatever the
  exit code of the process and whether or not a success marker was found as well.
\<close>

theorem main_error_dominates:
  assumes "main_setup a timestamp w = Inr ((input_path, pw_exec, output_path, error_path), w1)"
      and "run_pw input_path pw_exec output_path error_path (parent input_path)
             (timeout a) (mpi a) sv w1 = (Return exit_code, w2)"
      and "fst (fst (detect_qe_errors output_path w2))"
  shows "fst (main a timestamp sv w) = Return 2"
  using assms by (auto simp: main_def split: prod.splits)

text \<open>
  Claim C1, as amended. When the supervisor reports 124, the exit code of the program is
  124 unless the classifier reports \<open>has_error\<close> on the captured output; then it is 2,
  as for every other run (the error check comes first and knows nothing of timeouts).
\<close>

theorem main_timeout_exit_code:
  assumes "main_setup a timestamp w = Inr ((input_path, pw_exec, output_path, error_path), w1)"
      and "run_pw input_path pw_exec output_path error_path (parent input_path)
             (timeout a) (mpi a) sv w1 = (Return 124, w2)"
  shows "fst (main a timestamp sv w)
           = Return (if fst (fst (detect_qe_errors output_path w2)) then 2 else 124)"
  using assms by (auto simp: main_def split: prod.splits)


lemma demo_setup:
  "main_setup demo_args demo_timestamp demo_world
     = Inr ((demo_input, ''/bin/pw.x'', demo_output, demo_errfile), demo_prepared)"
proof -
  have "\<not> isl (main_setup demo_args demo_timestamp demo_world)"
    by code_simp
  moreover have "fst (projr (main_setup demo_args demo_timestamp demo_world))
                   = (demo_input, ''/bin/pw.x'', demo_output, demo_errfile)"
    by code_simp
  ultimately show ?thesis
    by (cases "main_setup demo_args demo_timestamp demo_world") (auto simp: demo_prepared_def)
qed

lemma demo_run_contradictory:
  "fst (run_pw demo_input ''/bin/pw.x'' demo_output demo_errfile (parent demo_input)
          (timeout demo_args) (mpi demo_args) contradictory_solver demo_prepared) = Return 0"
  by code_simp

lemma demo_contradictory_text:
  "fst (detect_qe_errors demo_output
          (snd (run_pw demo_input ''/bin/pw.x'' demo_output demo_errfile (parent demo_input)
                  (timeout demo_args) (mpi demo_args) contradictory_solver demo_prepared)))
     = (True, True)"
  by code_simp

theorem main_error_dominates_witness:
  "fst (main demo_args demo_timestamp contradictory_solver demo_world) = Return 2"
proof -
  have "run_pw demo_input ''/bin/pw.x'' demo_output demo_errfile (parent demo_input)
          (timeout demo_args) (mpi demo_args) contradictory_solver demo_prepared
        = (Return 0, snd (run_pw demo_input ''/bin/pw.x'' demo_output demo_errfile (parent demo_input)
          (timeout demo_args) (mpi demo_args) contradictory_solver demo_prepared))"
    using demo_run_contradictory by (simp add: prod_eq_iff)
  from main_error_dominates [OF demo_setup this] demo_contradictory_text
  show ?thesis by simp
qed

lemma demo_run_silent:
  "fst (run_pw demo_input ''/bin/pw.x'' demo_output demo_errfile (parent demo_input)
          (timeout demo_args) (mpi demo_args) silent_solver demo_prepared) = Return 124"
  by code_simp

lemma demo_silent_text:
  "fst (detect_qe_errors demo_output
          (snd (run_pw demo_input ''/bin/pw.x'' demo_output demo_errfile (parent demo_input)
                  (timeout demo_args) (mpi demo_args) silent_solver demo_prepared)))
     = (False, False)"
  by code_simp

theorem main_timeout_exit_code_witness:
  "fst (main demo_args demo_timestamp silent_solver demo_world) = Return 124"
proof -
  have "run_pw demo_input ''/bin/pw.x'' demo_output demo_errfile (parent demo_input)
          (timeout demo_args) (mpi demo_args) silent_solver demo_prepared
        = (Return 124, snd (run_pw demo_input ''/bin/pw.x'' demo_output demo_errfile (parent demo_input)
          (timeout demo_args) (mpi demo_args) silent_solver demo_prepared))"
    using demo_run_silent by (simp add: prod_eq_iff)
  from main_timeout_exit_code [OF demo_setup this] demo_silent_text
  show ?thesis by simp
qed

lemma demo_run_stuck:
  "fst (run_pw demo_input ''/bin/pw.x'' demo_output demo_errfile (parent demo_input)
          (timeout demo_args) (mpi demo_args) stuck_solver demo_prepared) = Return 124"
  by code_simp

lemma demo_main_stuck:
  "fst (main demo_args demo_timestamp stuck_solver demo_world) = Return 2"
  by code_simp

text \<open>
  Claim C1 as stated fails: the solver below runs into the timeout, the supervisor
  returns 124, the captured output holds an error marker, and the program exits with 2.
\<close>

theorem main_timeout_counterexample:
  "main_setup demo_args demo_timestamp demo_world
     = Inr ((demo_input, ''/bin/pw.x'', demo_output, demo_errfile), demo_prepared)
   \<and> fst (run_pw demo_input ''/bin/pw.x'' demo_output demo_errfile (parent demo_input)
            (timeout demo_args) (mpi demo_args) stuck_solver demo_prepared) = Return 124
   \<and> fst (main demo_args demo_timestamp stuck_solver demo_world) = Return 2
   \<and> fst (main demo_args demo_timestamp stuck_solver demo_world) \<noteq> Return 124"
  using demo_setup demo_run_stuck demo_main_stuck by simp

subsection \<open>The directory-declaration extractor\<close>

lemma match_key_iff:
  "match_key key s = Some r \<longleftrightarrow> (\<exists>spelling. s = spelling @ r \<and> map lower spelling = map lower key)"
proof (induction key s rule: match_key.induct)
  case (1 s)
  show ?case by auto
next
  case (2 k ks)
  show ?case by auto
next
  case (3 k ks c cs)
  show ?case
  proof (cases "lower c = lower k")
    case True
    have "(\<exists>spelling. c # cs = spelling @ r \<and> map lower spelling = map lower (k # ks))
          \<longleftrightarrow> (\<exists>sp. cs = sp @ r \<and> map lower sp = map lower ks)"
    proof
      assume "\<exists>spelling. c # cs = spelling @ r \<and> map lower spelling = map lower (k # ks)"
      then obtain spelling where sp: "c # cs = spelling @ r" "map lower spelling = map lower (k # ks)"
        by blast
      then obtain d ds where "spelling = d # ds" by (cases spelling) auto
      with sp show "\<exists>sp. cs = sp @ r \<and> map lower sp = map lower ks" by auto
    next
      assume "\<exists>sp. cs = sp @ r \<and> map lower sp = map lower ks"
      then obtain sp where "cs = sp @ r" "map lower sp = map lower ks" by blast
      with True have "c # cs = (c # sp) @ r \<and> map lower (c # sp) = map lower (k # ks)" by simp
      then show "\<exists>spelling. c # cs = spelling @ r \<and> map lower spelling = map lower (k # ks)" by blast
    qed
    with True 3 show ?thesis by simp
  next
    case False
    have "\<not> (\<exists>spelling. c # cs = spelling @ r \<and> map lower spelling = map lower (k # ks))"
    proof
      assume "\<exists>spelling. c # cs = spelling @ r \<and> map lower spelling = map lower (k # ks)"
      then obtain spelling where sp: "c # cs = spelling @ r" "map lower spelling = map lower (k # ks)"
        by blast
      then obtain d ds where "spelling = d # ds" by (cases spelling) auto
      with sp False show False by auto
    qed
    with False show ?thesis by simp
  qed
qed

lemma not_space_eq: "\<not> is_space CHR ''=''"
  by (simp add: is_space_def)

lemma value_char_not_space: "is_value_char c \<Longrightarrow> \<not> is_space c"
  by (simp add: is_value_char_def)

lemma value_char_not_quote: "is_value_char c \<Longrightarrow> \<not> is_quote c"
  by (simp add: is_value_char_def)

lemma quote_not_space: "is_quote c \<Longrightarrow> \<not> is_space c"
  by (auto simp: is_quote_def is_space_def)

lemma dropWhile_spaces:
  "list_all is_space ws \<Longrightarrow> (case r of [] \<Rightarrow> True | c # cs \<Rightarrow> \<not> is_space c)
     \<Longrightarrow> dropWhile is_space (ws @ r) = r"
  by (induction ws) (auto split: list.splits)

lemma takeWhile_value:
  "list_all is_value_char v \<Longrightarrow> (case rest of [] \<Rightarrow> True | c # cs \<Rightarrow> \<not> is_value_char c)
     \<Longrightarrow> takeWhile is_value_char (v @ rest) = v"
  by (induction v) (auto split: list.splits)

lemma match_decl_complete:
  assumes "list_all is_space ws1" "list_all is_space ws2" "length q \<le> 1" "list_all is_quote q"
    "v \<noteq> []" "list_all is_value_char v" "case rest of [] \<Rightarrow> True | c # cs \<Rightarrow> \<not> is_value_char c"
  shows "match_decl (ws1 @ ''='' @ ws2 @ q @ v @ rest) = Some v"
proof -
  obtain c cs where v: "v = c # cs" using assms(5) by (cases v) auto
  with assms(6) have c: "is_value_char c" by simp
  have 1: "dropWhile is_space (ws1 @ CHR ''='' # ws2 @ q @ v @ rest) = CHR ''='' # ws2 @ q @ v @ rest"
    using dropWhile_spaces [OF assms(1), of "CHR ''='' # ws2 @ q @ v @ rest"]
    by (simp add: not_space_eq)
  have "case q @ v @ rest of [] \<Rightarrow> True | x # xs \<Rightarrow> \<not> is_space x"
    using assms(4) c v by (cases q) (simp_all add: quote_not_space value_char_not_space)
  then have 2: "dropWhile is_space (ws2 @ q @ v @ rest) = q @ v @ rest"
    using assms(2) by (rule dropWhile_spaces [rotated])
  have 3: "strip_quote (q @ v @ rest) = v @ rest"
    using assms(3,4) c v by (cases q) (simp_all add: strip_quote_def value_char_not_quote)
  have 4: "takeWhile is_value_char (v @ rest) = v"
    using assms(6,7) by (rule takeWhile_value)
  show ?thesis
    using assms(5) by (simp add: match_decl_def Let_def 1 2 3 4)
qed

lemma split_spaces:
  "\<exists>ws. s = ws @ dropWhile is_space s \<and> list_all is_space ws"
proof -
  have "s = takeWhile is_space s @ dropWhile is_space s" by simp
  moreover have "list_all is_space (takeWhile is_space s)"
    by (simp add: list_all_iff) (meson set_takeWhileD)
  ultimately show ?thesis by blast
qed

lemma split_value:
  "\<exists>rest. s = takeWhile is_value_char s @ rest \<and> list_all is_value_char (takeWhile is_value_char s)
      \<and> (case rest of [] \<Rightarrow> True | c # cs \<Rightarrow> \<not> is_value_char c)"
proof -
  have "s = takeWhile is_value_char s @ dropWhile is_value_char s" by simp
  moreover have "list_all is_value_char (takeWhile is_value_char s)"
    by (simp add: list_all_iff) (meson set_takeWhileD)
  moreover have "case dropWhile is_value_char s of [] \<Rightarrow> True | c # cs \<Rightarrow> \<not> is_value_char c"
  proof (cases "dropWhile is_value_char s")
    case Nil
    show ?thesis unfolding Nil by simp
  next
    case (Cons c cs)
    have "\<not> is_value_char (hd (dropWhile is_value_char s))"
      by (rule hd_dropWhile) (simp add: Cons)
    then have "\<not> is_value_char c" unfolding Cons by simp
    then show ?thesis unfolding Cons by simp
  qed
  ultimately show ?thesis by blast
qed

lemma strip_quote_split: "\<exists>q. r = q @ strip_quote r \<and> length q \<le> 1 \<and> list_all is_quote q"
proof (cases r)
  case Nil
  then show ?thesis by (simp add: strip_quote_def)
next
  case (Cons x xs)
  show ?thesis
  proof (cases "is_quote x")
    case True
    with Cons have "r = [x] @ strip_quote r \<and> length [x] \<le> 1 \<and> list_all is_quote [x]"
      by (simp add: strip_quote_def)
    then show ?thesis by blast
  next
    case False
    with Cons have "r = [] @ strip_quote r \<and> length ([] :: string) \<le> 1 \<and> list_all is_quote []"
      by (simp add: strip_quote_def)
    then show ?thesis by blast
  qed
qed

lemma match_decl_sound:
  assumes "match_decl r = Some v"
  shows "\<exists>ws1 ws2 q rest. r = ws1 @ ''='' @ ws2 @ q @ v @ rest
        \<and> list_all is_space ws1 \<and> list_all is_space ws2
        \<and> length q \<le> 1 \<and> list_all is_quote q
        \<and> v \<noteq> [] \<and> list_all is_value_char v
        \<and> (case rest of [] \<Rightarrow> True | c # cs \<Rightarrow> \<not> is_value_char c)"
proof -
  obtain ws1 where ws1: "r = ws1 @ dropWhile is_space r" "list_all is_space ws1"
    using split_spaces by blast
  from assms obtain r2 where r2: "dropWhile is_space r = CHR ''='' # r2"
    by (auto simp: match_decl_def split: list.splits if_splits)
  obtain ws2 where ws2: "r2 = ws2 @ dropWhile is_space r2" "list_all is_space ws2"
    using split_spaces by blast
  define r3 where "r3 = dropWhile is_space r2"
  from assms r2 have v: "v = takeWhile is_value_char (strip_quote r3)" "v \<noteq> []"
    by (auto simp: match_decl_def Let_def r3_def split: if_splits)
  obtain q where q: "r3 = q @ strip_quote r3" "length q \<le> 1" "list_all is_quote q"
    using strip_quote_split by blast
  obtain rest where rest: "strip_quote r3 = v @ rest" "list_all is_value_char v"
    "case rest of [] \<Rightarrow> True | c # cs \<Rightarrow> \<not> is_value_char c"
    using split_value [of "strip_quote r3"] v(1) by auto
  have "r = ws1 @ ''='' @ ws2 @ q @ v @ rest"
    using ws1(1) r2 ws2(1) q(1) rest(1) by (simp add: r3_def)
  with ws1(2) ws2(2) q(2,3) v(2) rest(2,3) show ?thesis by blast
qed

lemma match_at_iff: "match_at key s = Some v \<longleftrightarrow> declares key s v"
proof
  assume "match_at key s = Some v"
  then obtain r where r: "match_key key s = Some r" "match_decl r = Some v"
    by (auto simp: match_at_def split: option.splits)
  from r(1) obtain spelling where "s = spelling @ r" "map lower spelling = map lower key"
    by (auto simp: match_key_iff)
  with match_decl_sound [OF r(2)] show "declares key s v"
    unfolding declares_def by blast
next
  assume "declares key s v"
  then obtain spelling ws1 ws2 q rest where d:
    "s = spelling @ ws1 @ ''='' @ ws2 @ q @ v @ rest"
    "map lower spelling = map lower key"
    "list_all is_space ws1" "list_all is_space ws2" "length q \<le> 1" "list_all is_quote q"
    "v \<noteq> []" "list_all is_value_char v" "case rest of [] \<Rightarrow> True | c # cs \<Rightarrow> \<not> is_value_char c"
    unfolding declares_def by blast
  from d(1,2) have "match_key key s = Some (ws1 @ ''='' @ ws2 @ q @ v @ rest)"
    by (auto simp: match_key_iff)
  moreover have "match_decl (ws1 @ ''='' @ ws2 @ q @ v @ rest) = Some v"
    using d(3-9) by (rule match_decl_complete)
  ultimately show "match_at key s = Some v"
    by (simp add: match_at_def)
qed


lemma match_key_spelling:
  "map lower s1 = map lower s2 \<Longrightarrow> length s1 \<le> length key
     \<Longrightarrow> match_key key (s1 @ rest) = match_key key (s2 @ rest)"
proof (induction key arbitrary: s1 s2)
  case Nil
  then show ?case by simp
next
  case (Cons k ks)
  show ?case
  proof (cases s1)
    case Nil
    with Cons.prems show ?thesis by simp
  next
    case c: (Cons c cs)
    with Cons.prems obtain d ds where d: "s2 = d # ds" "lower c = lower d" "map lower cs = map lower ds"
      by (cases s2) auto
    from Cons.prems c have "length cs \<le> length ks" by simp
    from Cons.IH [OF d(3) this] c d show ?thesis by simp
  qed
qed

lemma parse_namelist_value_spelling:
  "map lower s1 = map lower s2 \<Longrightarrow> length s1 \<le> length key
     \<Longrightarrow> parse_namelist_value (s1 @ rest) key = parse_namelist_value (s2 @ rest) key"
proof (induction s1 arbitrary: s2)
  case Nil
  then show ?case by simp
next
  case (Cons c cs)
  then obtain d ds where d: "s2 = d # ds" "map lower cs = map lower ds"
    by (cases s2) auto
  have "match_at key ((c # cs) @ rest) = match_at key (s2 @ rest)"
    using match_key_spelling [OF Cons.prems] by (simp add: match_at_def)
  moreover have "parse_namelist_value (cs @ rest) key = parse_namelist_value (ds @ rest) key"
    using Cons.IH [OF d(2)] Cons.prems(2) by simp
  ultimately show ?case using d(1) by (simp split: option.splits)
qed

lemma leftmost_match:
  "parse_namelist_value s key = Some v \<longleftrightarrow>
     (\<exists>n\<le>length s. match_at key (drop n s) = Some v \<and> (\<forall>m<n. match_at key (drop m s) = None))"
proof (induction s)
  case Nil
  show ?case by simp
next
  case (Cons c cs)
  show ?case
  proof (cases "match_at key (c # cs)")
    case (Some u)
    have "(\<exists>n\<le>length (c # cs). match_at key (drop n (c # cs)) = Some v
             \<and> (\<forall>m<n. match_at key (drop m (c # cs)) = None)) \<longleftrightarrow> u = v"
    proof
      assume "\<exists>n\<le>length (c # cs). match_at key (drop n (c # cs)) = Some v
                \<and> (\<forall>m<n. match_at key (drop m (c # cs)) = None)"
      then obtain n where n: "match_at key (drop n (c # cs)) = Some v"
        "\<forall>m<n. match_at key (drop m (c # cs)) = None" by blast
      have "n = 0"
      proof (rule ccontr)
        assume "n \<noteq> 0"
        with n(2) have "match_at key (drop 0 (c # cs)) = None" by blast
        with Some show False by simp
      qed
      with n(1) Some show "u = v" by simp
    next
      assume "u = v"
      with Some have "match_at key (drop 0 (c # cs)) = Some v
                        \<and> (\<forall>m<0. match_at key (drop m (c # cs)) = None)" by simp
      then show "\<exists>n\<le>length (c # cs). match_at key (drop n (c # cs)) = Some v
                   \<and> (\<forall>m<n. match_at key (drop m (c # cs)) = None)" by blast
    qed
    with Some show ?thesis by simp
  next
    case None
    have "(\<exists>n\<le>length (c # cs). match_at key (drop n (c # cs)) = Some v
             \<and> (\<forall>m<n. match_at key (drop m (c # cs)) = None))
          \<longleftrightarrow> (\<exists>n\<le>length cs. match_at key (drop n cs) = Some v
             \<and> (\<forall>m<n. match_at key (drop m cs) = None))"
    proof
      assume "\<exists>n\<le>length (c # cs). match_at key (drop n (c # cs)) = Some v
                \<and> (\<forall>m<n. match_at key (drop m (c # cs)) = None)"
      then obtain n where n: "n \<le> length (c # cs)" "match_at key (drop n (c # cs)) = Some v"
        "\<forall>m<n. match_at key (drop m (c # cs)) = None" by blast
      from n(2) None obtain k where k: "n = Suc k" by (cases n) auto
      have "\<forall>m<k. match_at key (drop m cs) = None"
      proof (intro allI impI)
        fix m assume "m < k"
        with k n(3) have "match_at key (drop (Suc m) (c # cs)) = None" by blast
        then show "match_at key (drop m cs) = None" by simp
      qed
      with n(1,2) k show "\<exists>n\<le>length cs. match_at key (drop n cs) = Some v
                            \<and> (\<forall>m<n. match_at key (drop m cs) = None)" by auto
    next
      assume "\<exists>n\<le>length cs. match_at key (drop n cs) = Some v
                \<and> (\<forall>m<n. match_at key (drop m cs) = None)"
      then obtain n where n: "n \<le> length cs" "match_at key (drop n cs) = Some v"
        "\<forall>m<n. match_at key (drop m cs) = None" by blast
      have "\<forall>m<Suc n. match_at key (drop m (c # cs)) = None"
      proof (intro allI impI)
        fix m assume m: "m < Suc n"
        show "match_at key (drop m (c # cs)) = None"
        proof (cases m)
          case 0
          with None show ?thesis by simp
        next
          case (Suc j)
          with m n(3) show ?thesis by simp
        qed
      qed
      with n(1,2) have "Suc n \<le> length (c # cs) \<and> match_at key (drop (Suc n) (c # cs)) = Some v
                          \<and> (\<forall>m<Suc n. match_at key (drop m (c # cs)) = None)" by simp
      then show "\<exists>n\<le>length (c # cs). match_at key (drop n (c # cs)) = Some v
                   \<and> (\<forall>m<n. match_at key (drop m (c # cs)) = None)" by blast
    qed
    with None Cons.IH show ?thesis by simp
  qed
qed

lemma no_match_iff: "match_at key s = None \<longleftrightarrow> (\<forall>u. \<not> declares key s u)"
  using match_at_iff [of key s] by (cases "match_at key s") auto

text \<open>
  Claim C10, as amended. For a key of letters, digits and underscores: a text that starts
  with any spelling of the key yields what the same text with the key itself yields; and
  the value returned is that of the first position of the text at which a declaration of
  the key starts (a spelling of the key, white space, \<open>=\<close>, white space, an optional
  quote, a value). An occurrence of the key that is not followed in this way is passed
  over.
\<close>

theorem parse_namelist_value_first_declaration:
  assumes "plain_key key"
  shows "(map lower spelling = map lower key \<longrightarrow>
            parse_namelist_value (spelling @ rest) key = parse_namelist_value (key @ rest) key)
       \<and> (parse_namelist_value s key = Some v \<longleftrightarrow>
            (\<exists>n\<le>length s. declares key (drop n s) v
                \<and> (\<forall>m<n. \<forall>u. \<not> declares key (drop m s) u)))"
proof
  show "map lower spelling = map lower key \<longrightarrow>
          parse_namelist_value (spelling @ rest) key = parse_namelist_value (key @ rest) key"
  proof
    assume eq: "map lower spelling = map lower key"
    then have "length spelling = length key"
      by (metis length_map)
    with eq show "parse_namelist_value (spelling @ rest) key = parse_namelist_value (key @ rest) key"
      by (intro parse_namelist_value_spelling) simp_all
  qed
next
  show "parse_namelist_value s key = Some v \<longleftrightarrow>
          (\<exists>n\<le>length s. declares key (drop n s) v \<and> (\<forall>m<n. \<forall>u. \<not> declares key (drop m s) u))"
    by (simp add: leftmost_match match_at_iff no_match_iff)
qed

lemma plain_outdir: "plain_key ''outdir''"
  by code_simp

lemma parse_upper: "parse_namelist_value (''OUTDIR'' @ '' = ./out/'') ''outdir'' = Some ''./out/''"
  by code_simp

lemma lower_OUTDIR: "map lower ''OUTDIR'' = map lower ''outdir''"
  by code_simp

theorem parse_namelist_value_first_declaration_witness:
  "parse_namelist_value (''outdir'' @ '' = ./out/'') ''outdir'' = Some ''./out/''
   \<and> (\<exists>n. declares ''outdir'' (drop n (''OUTDIR'' @ '' = ./out/'')) ''./out/'')"
  using parse_namelist_value_first_declaration
          [OF plain_outdir, of "''OUTDIR''" "'' = ./out/''" "''OUTDIR'' @ '' = ./out/''" "''./out/''"]
        parse_upper lower_OUTDIR
  by auto

lemma cex_parse: "parse_namelist_value cex_deck ''outdir'' = Some ''a''"
  by code_simp

lemma cex_first: "value_of_first_occurrence cex_deck ''outdir'' = None"
  by code_simp

text \<open>
  Claim C10 as stated fails: in the text below the first occurrence of the key is followed
  by no \<open>=\<close> and has no value; the extractor returns the value that follows the second
  occurrence, which is the tail of another name.
\<close>

theorem parse_namelist_value_first_occurrence_counterexample:
  "parse_namelist_value cex_deck ''outdir'' = Some ''a''
   \<and> value_of_first_occurrence cex_deck ''outdir'' = None
   \<and> parse_namelist_value cex_deck ''outdir'' \<noteq> value_of_first_occurrence cex_deck ''outdir''"
  using cex_parse cex_first by simp

subsection \<open>The run directory manager on a readable deck\<close>











































subsection \<open>Where the run directory manager raises\<close>

text \<open>
  Two runs outside the statements above. A regular file in the place of the declared
  output directory makes the directory creation raise, and a deck that does not decode
  makes the read raise an error that is no \<open>OSError\<close>; the manager catches neither.
\<close>

lemma ensure_output_dirs_blocked:
  "fst (ensure_output_dirs demo_input blocked_world) = Some (OSError FileExistsError)"
  by code_simp

lemma ensure_output_dirs_undecodable:
  "fst (ensure_output_dirs (Path_of ''/bin/pw.x'') demo_world) = Some UnicodeDecodeError"
  by code_simp

end
